theory Spec2Isabelle
  imports Main "HOL-Library.AList" "HOL-Library.DAList" "HOL-Library.Multiset"
begin

section \<open>Teacher dashboard: a shallow embedding of TeacherDashboard.jsx\<close>

text \<open>
  The component fetches result documents once, keeps the latest document per
  (level, display name), filters and sorts them, and renders one card per entry.
  Every function below is translated from \<^verbatim>\<open>src/src/TeacherDashboard.jsx\<close>.

  Conventions of the embedding.
  \<^item> A JavaScript string is a \<^typ>\<open>string\<close>; a character stands for one code unit in
    the Latin-1 range.
  \<^item> A field that may be absent (\<^verbatim>\<open>undefined\<close>) is an \<^typ>\<open>'a option\<close>.
  \<^item> A plain JavaScript object used as a dictionary is the list of its own enumerable
    properties in enumeration order (\<open>'v jsobj\<close>). Reads with a computed key also see
    the members every plain object inherits from \<^verbatim>\<open>Object.prototype\<close>; these are
    modelled where the source performs such a read.
  \<^item> \<^verbatim>\<open>createdAt\<close> is a date, held as its time value: integer milliseconds since the
    epoch, negative before 1970.
  \<^item> A score is an integer.
\<close>

subsection \<open>Strings\<close>

text \<open>\<^verbatim>\<open>String.prototype.trim\<close>: white space and line terminators of Latin-1.\<close>

definition isSpace :: "char \<Rightarrow> bool" where
  "isSpace c = (of_char c \<in> {9, 10, 11, 12, 13, 32, 160 :: nat})"

definition trim :: "string \<Rightarrow> string" where
  "trim s = rev (dropWhile isSpace (rev (dropWhile isSpace s)))"

text \<open>
  \<^verbatim>\<open>String.prototype.toLowerCase\<close> on Latin-1: the letters A-Z, and the accented
  capitals 192-214 and 216-222, move up by 32, which sets bit 5 of the code unit.
\<close>

definition isUpper :: "char \<Rightarrow> bool" where
  "isUpper c = (let n = (of_char c :: nat) in
     (65 \<le> n \<and> n \<le> 90) \<or> (192 \<le> n \<and> n \<le> 214) \<or> (216 \<le> n \<and> n \<le> 222))"

fun lowerChar :: "char \<Rightarrow> char" where
  "lowerChar (Char b0 b1 b2 b3 b4 b5 b6 b7) =
     (if isUpper (Char b0 b1 b2 b3 b4 b5 b6 b7) then Char b0 b1 b2 b3 b4 True b6 b7
      else Char b0 b1 b2 b3 b4 b5 b6 b7)"

definition toLowerCase :: "string \<Rightarrow> string" where
  "toLowerCase s = map lowerChar s"

text \<open>\<^verbatim>\<open>s.includes(t)\<close>: \<open>t\<close> occurs in \<open>s\<close> at some position.\<close>

fun startsWith :: "string \<Rightarrow> string \<Rightarrow> bool" where
  "startsWith s [] = True"
| "startsWith [] (c # t) = False"
| "startsWith (d # s) (c # t) = (d = c \<and> startsWith s t)"

fun includesStr :: "string \<Rightarrow> string \<Rightarrow> bool" where
  "includesStr [] t = (t = [])"
| "includesStr (d # s) t = (startsWith (d # s) t \<or> includesStr s t)"

subsection \<open>Objects as dictionaries\<close>

type_synonym 'v jsobj = "(string \<times> 'v) list"

text \<open>\<^verbatim>\<open>Object.keys\<close>, \<^verbatim>\<open>Object.entries\<close> is the list itself.\<close>

definition objKeys :: "'v jsobj \<Rightarrow> string list" where
  "objKeys ob = map fst ob"

text \<open>
  Own properties are enumerated with the array indices first, in ascending numeric
  order, and then the other string keys in the order of their creation. An array index
  is a canonical numeric string below \<open>2\<^sup>3\<^sup>2 - 1\<close>.
\<close>

definition isDigit :: "char \<Rightarrow> bool" where
  "isDigit c = (48 \<le> (of_char c :: nat) \<and> (of_char c :: nat) \<le> 57)"

definition toNumber :: "string \<Rightarrow> int" where
  "toNumber s = foldl (\<lambda>n c. 10 * n + (of_char c - 48)) 0 s"

definition arrayIndex :: "string \<Rightarrow> int option" where
  "arrayIndex k =
     (if k \<noteq> [] \<and> list_all isDigit k \<and> (k = ''0'' \<or> hd k \<noteq> CHR ''0'')
         \<and> toNumber k < 4294967295
      then Some (toNumber k) else None)"

fun insertIndexed :: "int \<Rightarrow> string \<Rightarrow> 'v \<Rightarrow> 'v jsobj \<Rightarrow> 'v jsobj" where
  "insertIndexed i k v [] = [(k, v)]"
| "insertIndexed i k v (p # ps) =
     (case arrayIndex (fst p) of
        Some j \<Rightarrow> if j < i then p # insertIndexed i k v ps else (k, v) # p # ps
      | None \<Rightarrow> (k, v) # p # ps)"

text \<open>
  \<^verbatim>\<open>ob[k] = v\<close> on an own data property: an existing key keeps its place, a new one
  is created (\<^const>\<open>AList.update\<close> appends it) at the place its kind gives it.
\<close>

definition objSet :: "'v jsobj \<Rightarrow> string \<Rightarrow> 'v \<Rightarrow> 'v jsobj" where
  "objSet ob k v =
     (case arrayIndex k of
        Some i \<Rightarrow> if k \<in> set (objKeys ob) then AList.update k v ob else insertIndexed i k v ob
      | None \<Rightarrow> AList.update k v ob)"

text \<open>
  The names every plain object inherits from \<^verbatim>\<open>Object.prototype\<close>. All are
  functions but \<^verbatim>\<open>__proto__\<close>, an accessor that yields the prototype object; each is
  a truthy value.
\<close>

definition objectPrototypeKeys :: "string list" where
  "objectPrototypeKeys =
     [''constructor'', ''__defineGetter__'', ''__defineSetter__'', ''hasOwnProperty'',
      ''__lookupGetter__'', ''__lookupSetter__'', ''isPrototypeOf'',
      ''propertyIsEnumerable'', ''toString'', ''valueOf'', ''__proto__'',
      ''toLocaleString'']"

subsection \<open>Data model\<close>

text \<open>
  A result document as the dashboard expects it:
  \<^verbatim>\<open>{ id, firstName, lastName, level, scores: { ... }, createdAt }\<close>.
\<close>

record result_doc =
  docId :: string
  firstName :: "string option"
  lastName :: "string option"
  level :: "string option"
  scores :: "int jsobj option"
  createdAt :: "int option"

text \<open>
  The values a computed read \<^verbatim>\<open>ob[k]\<close> can produce here: nothing, a number, a
  string, a stored document, or the member \<open>k\<close> inherited from \<^verbatim>\<open>Object.prototype\<close>.
\<close>

datatype jsval = Undefined | Num int | Str string | Doc result_doc | ProtoMember string

fun truthy :: "jsval \<Rightarrow> bool" where
  "truthy Undefined = False"
| "truthy (Num n) = (n \<noteq> 0)"
| "truthy (Str s) = (s \<noteq> [])"
| "truthy (Doc d) = True"
| "truthy (ProtoMember k) = True"

text \<open>\<^verbatim>\<open>ob[k]\<close> on a plain object whose own values are wrapped by \<open>wrap\<close>.\<close>

definition getProp :: "('v \<Rightarrow> jsval) \<Rightarrow> 'v jsobj \<Rightarrow> string \<Rightarrow> jsval" where
  "getProp wrap ob k =
     (case map_of ob k of
        Some v \<Rightarrow> wrap v
      | None \<Rightarrow> if k \<in> set objectPrototypeKeys then ProtoMember k else Undefined)"

subsection \<open>Constants\<close>

definition INTELLIGENCE_KEYS :: "string list" where
  "INTELLIGENCE_KEYS =
     [''Linguistic'', ''Logical-Mathematical'', ''Spatial'', ''Kinesthetic'', ''Musical'',
      ''Interpersonal'', ''Intrapersonal'', ''Naturalistic'']"

definition LABELS :: "string jsobj" where
  "LABELS =
     [(''Linguistic'', ''Linguistic''),
      (''Logical-Mathematical'', ''Logical/Math''),
      (''Spatial'', ''Spatial''),
      (''Kinesthetic'', ''Kinesthetic''),
      (''Musical'', ''Musical''),
      (''Interpersonal'', ''Interpersonal''),
      (''Intrapersonal'', ''Intrapersonal''),
      (''Naturalistic'', ''Naturalistic'')]"

definition MAX_SCORE :: int where
  "MAX_SCORE = 9"

subsection \<open>levelToGrade\<close>

text \<open>\<^verbatim>\<open>!level\<close> holds of an absent level and of the empty string.\<close>

definition levelToGrade :: "string option \<Rightarrow> string" where
  "levelToGrade lv =
     (case lv of
        None \<Rightarrow> ''Unknown''
      | Some l \<Rightarrow>
          if l = [] then ''Unknown''
          else if l = ''level1'' then ''Grade 9''
          else if l = ''level2'' then ''Grade 10''
          else if l = ''level3'' then ''Grade 11''
          else if l = ''level4'' then ''Grade 12''
          else l)"

subsection \<open>topIntelligences\<close>

text \<open>
  \<^verbatim>\<open>Array.prototype.sort\<close> with a comparison function is stable; for a consistent
  comparison its result is the stable sorted arrangement, which insertion from the
  right computes: an element goes in front of the first one it does not compare
  greater than.
\<close>

fun insertSorted :: "('a \<Rightarrow> 'a \<Rightarrow> int) \<Rightarrow> 'a \<Rightarrow> 'a list \<Rightarrow> 'a list" where
  "insertSorted cmp x [] = [x]"
| "insertSorted cmp x (y # ys) =
     (if cmp x y \<le> 0 then x # y # ys else y # insertSorted cmp x ys)"

fun arraySort :: "('a \<Rightarrow> 'a \<Rightarrow> int) \<Rightarrow> 'a list \<Rightarrow> 'a list" where
  "arraySort cmp [] = []"
| "arraySort cmp (x # xs) = insertSorted cmp x (arraySort cmp xs)"

text \<open>\<^verbatim>\<open>LABELS[k] || k\<close>\<close>

definition labelOf :: "string \<Rightarrow> jsval" where
  "labelOf k = (let l = getProp Str LABELS k in if truthy l then l else Str k)"

definition topIntelligences :: "int jsobj option \<Rightarrow> nat \<Rightarrow> jsval list" where
  "topIntelligences sc n =
     (case sc of
        None \<Rightarrow> []
      | Some ob \<Rightarrow>
          map (\<lambda>(k, v). labelOf k) (take n (arraySort (\<lambda>a b. snd b - snd a) ob)))"

subsection \<open>latestPerStudent\<close>

text \<open>\<^verbatim>\<open>r.level || "unknown"\<close>\<close>

definition levelKey :: "result_doc \<Rightarrow> string" where
  "levelKey r = (case level r of None \<Rightarrow> ''unknown'' | Some l \<Rightarrow> if l = [] then ''unknown'' else l)"

text \<open>\<^verbatim>\<open>`${r.firstName || ""} ${r.lastName || ""}`.trim() || "(no name)"\<close>\<close>

definition orEmpty :: "string option \<Rightarrow> string" where
  "orEmpty x = (case x of None \<Rightarrow> [] | Some s \<Rightarrow> s)"

definition displayName :: "result_doc \<Rightarrow> string" where
  "displayName r =
     (let name = trim (orEmpty (firstName r) @ '' '' @ orEmpty (lastName r))
      in if name = [] then ''(no name)'' else name)"

text \<open>\<^verbatim>\<open>x.createdAt ? +new Date(x.createdAt) : 0\<close>, on the \<^verbatim>\<open>createdAt\<close> read from \<open>x\<close>.\<close>

definition timeOf :: "int option \<Rightarrow> int" where
  "timeOf c = (case c of None \<Rightarrow> 0 | Some t \<Rightarrow> t)"

text \<open>
  \<^verbatim>\<open>prev.createdAt\<close>: \<open>prev\<close> is a stored document or, when the name is one that
  plain objects inherit, a built-in function or object, which has no such property.
\<close>

fun createdAtOf :: "jsval \<Rightarrow> int option" where
  "createdAtOf (Doc d) = createdAt d"
| "createdAtOf v = None"

text \<open>
  The loop writes through computed keys into objects created with \<^verbatim>\<open>{}\<close>. One
  round stays within these objects unless
  \<^item> the level is a name of \<^const>\<open>objectPrototypeKeys\<close>: then \<^verbatim>\<open>map[lvl] || {}\<close> is a
    built-in function of the host, or \<^verbatim>\<open>Object.prototype\<close> itself, and the round reads
    and writes that object; or
  \<^item> the name is \<^verbatim>\<open>__proto__\<close> and the record is later than time 0: then the
    assignment replaces the prototype of the inner object by the document.
  \<open>recordStep\<close> is the round that stays; \<open>ReachesHost\<close> marks the two other cases.
\<close>

datatype 'a step = Stays 'a | ReachesHost

type_synonym student_map = "result_doc jsobj jsobj"

definition recordStep :: "student_map \<Rightarrow> result_doc \<Rightarrow> student_map step" where
  "recordStep mp r =
     (let lvl = levelKey r; name = displayName r in
      if lvl \<in> set objectPrototypeKeys then ReachesHost
      else
        let students = (case map_of mp lvl of None \<Rightarrow> [] | Some ob \<Rightarrow> ob);
            mp1 = objSet mp lvl students;
            prev = getProp Doc students name
        in
          if \<not> truthy prev then Stays (objSet mp1 lvl (objSet students name r))
          else
            let prevTime = timeOf (createdAtOf prev);
                curTime = timeOf (createdAt r)
            in
              if curTime > prevTime
              then (if name = ''__proto__'' then ReachesHost
                    else Stays (objSet mp1 lvl (objSet students name r)))
              else Stays mp1)"

text \<open>
  In a round that reaches the host the code goes on: it stores the record on the
  built-in object, or replaces the prototype, and the loop runs to its end and
  returns a map. Which map depends on what is not in this program: the properties
  of the host's built-in functions, the members every object inherits once
  \<^verbatim>\<open>Object.prototype\<close> has been written to, and every field of a document that has
  become a prototype (a document has at least the fields of \<^typ>\<open>result_doc\<close>). That
  map is a parameter: \<open>host mp rs\<close> is what the loop returns when, having built
  \<open>mp\<close>, it meets the records \<open>rs\<close> and the first of them reaches the host. Nothing is
  assumed of it but that it is an object of objects, each with every key once, which
  the type \<open>alist\<close> says; \<open>answerMap\<close> reads it as the own enumerable properties.
\<close>

type_synonym host_answer = "(string, (string, result_doc) alist) alist"

type_synonym host = "student_map \<Rightarrow> result_doc list \<Rightarrow> host_answer"

definition answerMap :: "host_answer \<Rightarrow> student_map" where
  "answerMap a = map (\<lambda>(lvl, ob). (lvl, DAList.impl_of ob)) (DAList.impl_of a)"

fun latestLoop :: "host \<Rightarrow> student_map \<Rightarrow> result_doc list \<Rightarrow> student_map" where
  "latestLoop host mp [] = mp"
| "latestLoop host mp (r # rs) =
     (case recordStep mp r of
        Stays mp' \<Rightarrow> latestLoop host mp' rs
      | ReachesHost \<Rightarrow> answerMap (host mp (r # rs)))"

definition latestPerStudent :: "host \<Rightarrow> result_doc list \<Rightarrow> student_map" where
  "latestPerStudent host results = latestLoop host [] results"

subsection \<open>visible\<close>

record visible_entry =
  entryLevel :: string
  entryName :: string
  entryDoc :: result_doc

text \<open>
  \<^verbatim>\<open>a.localeCompare(b)\<close> is the host's collation. ECMAScript requires it to be a
  consistent comparison of strings, that is, the comparison of the collation keys of
  the host's locale; \<open>collate\<close> is that key function, and the model is parametric in
  it.
\<close>

definition localeCompare :: "(string \<Rightarrow> 'k::linorder) \<Rightarrow> string \<Rightarrow> string \<Rightarrow> int" where
  "localeCompare collate a b =
     (if collate a < collate b then - 1 else if collate a = collate b then 0 else 1)"

text \<open>The local constant \<open>levels\<close> of \<open>visible\<close>.\<close>

definition candidateLevels :: "student_map \<Rightarrow> string list" where
  "candidateLevels mp =
     (if length (objKeys mp) \<noteq> 0 then objKeys mp
      else [''level1'', ''level2'', ''level3'', ''level4''])"

text \<open>
  \<^verbatim>\<open>latestPerStudent[lvl] || {}\<close>, for \<open>lvl\<close> a candidate level: an own key of the
  map, or one of the four default levels, which no plain object inherits.
\<close>

definition studentsOf :: "student_map \<Rightarrow> string \<Rightarrow> result_doc jsobj" where
  "studentsOf mp lvl = (case map_of mp lvl of None \<Rightarrow> [] | Some ob \<Rightarrow> ob)"

definition visible ::
  "(string \<Rightarrow> 'k::linorder) \<Rightarrow> student_map \<Rightarrow> string \<Rightarrow> string \<Rightarrow> visible_entry list" where
  "visible collate mp levelFilter search =
     arraySort (\<lambda>a b. localeCompare collate (entryName a) (entryName b))
       (concat (map (\<lambda>lvl.
          if levelFilter \<noteq> ''all'' \<and> lvl \<noteq> levelFilter then []
          else concat (map (\<lambda>(name, d).
                 if search \<noteq> [] \<and> \<not> includesStr (toLowerCase name) (toLowerCase search)
                 then []
                 else [\<lparr>entryLevel = lvl, entryName = name, entryDoc = d\<rparr>])
               (studentsOf mp lvl)))
        (candidateLevels mp)))"

subsection \<open>Rendering a card\<close>

text \<open>
  One row of the bar chart: the label, the width in percent and the value.
  \<^verbatim>\<open>Math.round((val / MAX_SCORE) * 100)\<close> rounds to the nearest integer, halves up;
  on integers that is \<open>\<lfloor>(200 val + 9) / 18\<rfloor>\<close>.
\<close>

definition barRow :: "int jsobj \<Rightarrow> string \<Rightarrow> jsval \<times> int \<times> int" where
  "barRow sc key =
     (let val = (case getProp Num sc key of Num n \<Rightarrow> n | _ \<Rightarrow> 0);
          pct = (2 * (val * 100) + MAX_SCORE) div (2 * MAX_SCORE)
      in (labelOf key, pct, val))"

definition barChart :: "int jsobj \<Rightarrow> (jsval \<times> int \<times> int) list" where
  "barChart sc = map (barRow sc) INTELLIGENCE_KEYS"

record card =
  cardKey :: string
  cardName :: string
  cardGrade :: string
  cardTop :: "jsval list"
  cardBars :: "(jsval \<times> int \<times> int) list"

definition renderCard :: "visible_entry \<Rightarrow> card" where
  "renderCard item =
     (let sc = (case scores (entryDoc item) of None \<Rightarrow> [] | Some ob \<Rightarrow> ob);
          top = topIntelligences (Some sc) 3
      in \<lparr>cardKey = entryLevel item @ ''-'' @ entryName item,
          cardName = entryName item,
          cardGrade = levelToGrade (Some (entryLevel item)),
          cardTop = top,
          cardBars = barChart sc\<rparr>)"

text \<open>
  The same rendering with the store explicit, to state what it leaves untouched.
  The store holds the object \<open>scores\<close> of the record and the array that
  \<^verbatim>\<open>Object.entries(scores)\<close> allocates; \<^verbatim>\<open>sort\<close> works in place, on that array;
  \<^verbatim>\<open>slice\<close> and \<^verbatim>\<open>map\<close> make arrays of their own, and the bar chart only reads
  \<^verbatim>\<open>scores[key]\<close>.
\<close>

record render_store =
  scoresObject :: "int jsobj"
  entriesArray :: "(string \<times> int) list"

definition topIntelligencesIn :: "nat \<Rightarrow> render_store \<Rightarrow> jsval list \<times> render_store" where
  "topIntelligencesIn n st =
     (let st1 = st\<lparr>entriesArray := scoresObject st\<rparr>;
          st2 = st1\<lparr>entriesArray := arraySort (\<lambda>a b. snd b - snd a) (entriesArray st1)\<rparr>
      in (map (\<lambda>(k, v). labelOf k) (take n (entriesArray st2)), st2))"

definition renderScores ::
  "render_store \<Rightarrow> (jsval list \<times> (jsval \<times> int \<times> int) list) \<times> render_store" where
  "renderScores st =
     (let (top, st1) = topIntelligencesIn 3 st
      in ((top, barChart (scoresObject st1)), st1))"

subsection \<open>load\<close>

text \<open>
  A document of the snapshot: its id and the stored fields. A stored \<^verbatim>\<open>createdAt\<close>
  is a store timestamp, which has \<^verbatim>\<open>toDate\<close>, or already a date; both are given by
  their time value.
\<close>

datatype stored_time = StoreTimestamp int | PlainDate int

record snapshot_doc =
  snapId :: string
  snapFirstName :: "string option"
  snapLastName :: "string option"
  snapLevel :: "string option"
  snapScores :: "int jsobj option"
  snapCreatedAt :: "stored_time option"

definition normalizeDoc :: "snapshot_doc \<Rightarrow> result_doc" where
  "normalizeDoc doc =
     \<lparr>docId = snapId doc,
      firstName = snapFirstName doc,
      lastName = snapLastName doc,
      level = snapLevel doc,
      scores = snapScores doc,
      createdAt = (case snapCreatedAt doc of
                     None \<Rightarrow> None
                   | Some (StoreTimestamp t) \<Rightarrow> Some t
                   | Some (PlainDate t) \<Rightarrow> Some t)\<rparr>"

text \<open>
  The state of the component, and the console. \<open>load\<close> suspends once, at
  \<^verbatim>\<open>await getDocs(q)\<close>; the awaited call resolves to the snapshot or throws, and by
  then the clean-up of the effect may have cleared \<open>mounted\<close>.
\<close>

record dashboard =
  loading :: bool
  results :: "result_doc list"
  levelFilter :: string
  search :: string
  consoleErrors :: "string list"

datatype fetch_error = FetchFailure string

text \<open>
  \<^verbatim>\<open>try { body } catch (err) { handler } finally { fin }\<close> over a state: \<open>Inl\<close> is
  a thrown error; the body here changes no state before it throws; \<open>fin\<close> runs on
  every path, also after a \<^verbatim>\<open>return\<close>.
\<close>

definition tryCatchFinally ::
  "('s \<Rightarrow> 'e + 's) \<Rightarrow> ('e \<Rightarrow> 's \<Rightarrow> 'e + 's) \<Rightarrow> ('s \<Rightarrow> 'e + 's) \<Rightarrow> 's \<Rightarrow> 'e + 's" where
  "tryCatchFinally body handler fin s =
     (case (case body s of Inl e \<Rightarrow> handler e s | Inr s' \<Rightarrow> Inr s') of
        Inl e \<Rightarrow> (case fin s of Inl e' \<Rightarrow> Inl e' | Inr s' \<Rightarrow> Inl e)
      | Inr s' \<Rightarrow> fin s')"

definition load ::
  "(fetch_error + snapshot_doc list) \<Rightarrow> bool \<Rightarrow> dashboard \<Rightarrow> fetch_error + dashboard" where
  "load fetched mounted st =
     tryCatchFinally
       (\<lambda>s. case fetched of
               Inl err \<Rightarrow> Inl err
             | Inr snap \<Rightarrow>
                 (let docs = map normalizeDoc snap
                  in if \<not> mounted then Inr s else Inr (s\<lparr>results := docs\<rparr>)))
       (\<lambda>err s.
          (let s1 = s\<lparr>consoleErrors :=
                       consoleErrors s @ [''Failed to load results:'' @
                         (case err of FetchFailure msg \<Rightarrow> msg)]\<rparr>
           in if \<not> mounted then Inr s1 else Inr (s1\<lparr>results := []\<rparr>)))
       (\<lambda>s. if mounted then Inr (s\<lparr>loading := False\<rparr>) else Inr s)
       (st\<lparr>loading := True\<rparr>)"

subsection \<open>Notions used to state the properties\<close>

text \<open>
  The invariant of a map of maps: an object has each key once, so
  \<^verbatim>\<open>Object.keys\<close> lists no key twice, at either level.
\<close>

definition wfMap :: "student_map \<Rightarrow> bool" where
  "wfMap mp = (distinct (objKeys mp) \<and> (\<forall>ob \<in> snd ` set mp. distinct (objKeys ob)))"

text \<open>The document kept for a level and a name: the own property \<^verbatim>\<open>map[lvl][name]\<close>.\<close>

definition stored :: "student_map \<Rightarrow> string \<Rightarrow> string \<Rightarrow> result_doc option" where
  "stored mp lvl name = map_of (studentsOf mp lvl) name"

text \<open>
  What one round of the loop does to the document kept under the name of \<open>r\<close>, read
  off \<^const>\<open>recordStep\<close>: with nothing kept yet, \<open>r\<close> is stored, unless the name is
  one that plain objects inherit, where it is stored only with a time above 0; a kept
  document gives way to a strictly later one.
\<close>

definition keepLatest :: "string \<Rightarrow> result_doc option \<Rightarrow> result_doc \<Rightarrow> result_doc option" where
  "keepLatest name prev r =
     (case prev of
        None \<Rightarrow>
          if name \<in> set objectPrototypeKeys \<and> \<not> 0 < timeOf (createdAt r) then None
          else Some r
      | Some p \<Rightarrow> if timeOf (createdAt r) > timeOf (createdAt p) then Some r else Some p)"

text \<open>Documents for the worked examples.\<close>

definition mkDoc :: "string \<Rightarrow> string \<Rightarrow> string \<Rightarrow> string \<Rightarrow> int option \<Rightarrow> result_doc" where
  "mkDoc i f l lv c =
     \<lparr>docId = i, firstName = Some f, lastName = Some l, level = Some lv, scores = None,
      createdAt = c\<rparr>"

section \<open>Properties\<close>

subsection \<open>Sorting and searching\<close>

lemma set_insertSorted: "set (insertSorted cmp x ys) = insert x (set ys)"
  by (induction ys) auto

lemma set_arraySort: "set (arraySort cmp xs) = set xs"
  by (induction xs) (auto simp: set_insertSorted)

lemma length_insertSorted: "length (insertSorted cmp x ys) = Suc (length ys)"
  by (induction ys) auto

lemma length_arraySort: "length (arraySort cmp xs) = length xs"
  by (induction xs) (auto simp: length_insertSorted)

lemma distinct_map_insertSorted:
  "distinct (map f (insertSorted cmp x ys)) \<longleftrightarrow> f x \<notin> f ` set ys \<and> distinct (map f ys)"
  by (induction ys) (auto simp: set_insertSorted)

lemma distinct_map_arraySort:
  "distinct (map f (arraySort cmp xs)) \<longleftrightarrow> distinct (map f xs)"
  by (induction xs) (auto simp: distinct_map_insertSorted set_arraySort)

lemma sorted_insertSorted:
  assumes total: "\<And>a b. cmp a b \<le> 0 \<or> cmp b a \<le> 0"
    and trans: "\<And>a b c. cmp a b \<le> 0 \<Longrightarrow> cmp b c \<le> 0 \<Longrightarrow> cmp a c \<le> 0"
  shows "sorted_wrt (\<lambda>a b. cmp a b \<le> 0) ys \<Longrightarrow> sorted_wrt (\<lambda>a b. cmp a b \<le> 0) (insertSorted cmp x ys)"
proof (induction ys)
  case Nil
  then show ?case by simp
next
  case (Cons y ys)
  show ?case
  proof (cases "cmp x y \<le> 0")
    case True
    with Cons.prems trans show ?thesis by auto
  next
    case False
    with total have "cmp y x \<le> 0" by blast
    with False Cons show ?thesis by (auto simp: set_insertSorted)
  qed
qed

lemma sorted_arraySort:
  assumes total: "\<And>a b. cmp a b \<le> 0 \<or> cmp b a \<le> 0"
    and trans: "\<And>a b c. cmp a b \<le> 0 \<Longrightarrow> cmp b c \<le> 0 \<Longrightarrow> cmp a c \<le> 0"
  shows "sorted_wrt (\<lambda>a b. cmp a b \<le> 0) (arraySort cmp xs)"
  by (induction xs) (auto intro: sorted_insertSorted [OF total trans])

lemma localeCompare_le: "localeCompare collate a b \<le> 0 \<longleftrightarrow> collate a \<le> collate b"
  by (auto simp: localeCompare_def)

lemma startsWith_iff: "startsWith s t \<longleftrightarrow> (\<exists>ss. s = t @ ss)"
  by (induction s t rule: startsWith.induct) auto

lemma includesStr_iff: "includesStr s t \<longleftrightarrow> (\<exists>ps ss. s = ps @ t @ ss)"
proof (induction s)
  case Nil
  then show ?case by auto
next
  case (Cons d s)
  show ?case
  proof
    assume "includesStr (d # s) t"
    then consider "startsWith (d # s) t" | "includesStr s t" by auto
    then show "\<exists>ps ss. d # s = ps @ t @ ss"
    proof cases
      case 1
      then obtain ss where "d # s = t @ ss" by (auto simp: startsWith_iff)
      then have "d # s = [] @ t @ ss" by simp
      then show ?thesis by blast
    next
      case 2
      with Cons obtain ps ss where "s = ps @ t @ ss" by blast
      then have "d # s = (d # ps) @ t @ ss" by simp
      then show ?thesis by blast
    qed
  next
    assume "\<exists>ps ss. d # s = ps @ t @ ss"
    then obtain ps ss where e: "d # s = ps @ t @ ss" by blast
    show "includesStr (d # s) t"
    proof (cases ps)
      case Nil
      with e have "startsWith (d # s) t" by (auto simp: startsWith_iff)
      then show ?thesis by simp
    next
      case (Cons p ps')
      with e have "s = ps' @ t @ ss" by simp
      with Cons.IH have "includesStr s t" by blast
      then show ?thesis by simp
    qed
  qed
qed

subsection \<open>Objects\<close>

lemma map_of_insertIndexed:
  "k \<notin> fst ` set ob \<Longrightarrow> map_of (insertIndexed i k v ob) = (map_of ob)(k \<mapsto> v)"
  by (induction ob) (auto split: option.splits)

lemma set_insertIndexed: "set (insertIndexed i k v ob) = insert (k, v) (set ob)"
  by (induction ob) (auto split: option.splits)

lemma distinct_insertIndexed:
  "k \<notin> fst ` set ob \<Longrightarrow> distinct (map fst ob) \<Longrightarrow> distinct (map fst (insertIndexed i k v ob))"
  by (induction ob) (auto simp: set_insertIndexed split: option.splits)

lemma map_of_objSet: "map_of (objSet ob k v) = (map_of ob)(k \<mapsto> v)"
  by (auto simp: objSet_def objKeys_def update_conv' map_of_insertIndexed split: option.splits)

lemma keys_objSet: "fst ` set (objSet ob k v) = insert k (fst ` set ob)"
  by (auto simp: objSet_def objKeys_def dom_update set_insertIndexed split: option.splits)

lemma distinct_objSet: "distinct (objKeys ob) \<Longrightarrow> distinct (objKeys (objSet ob k v))"
  by (auto simp: objSet_def objKeys_def distinct_update distinct_insertIndexed split: option.splits)

lemma set_update_subset: "set (AList.update k v ob) \<subseteq> insert (k, v) (set ob)"
  by (induction ob) auto

lemma set_objSet_subset: "set (objSet ob k v) \<subseteq> insert (k, v) (set ob)"
  using set_update_subset [of k v ob]
  by (auto simp: objSet_def set_insertIndexed split: option.splits)

lemma wfMap_objSet:
  "wfMap mp \<Longrightarrow> distinct (objKeys ob) \<Longrightarrow> wfMap (objSet mp k ob)"
  unfolding wfMap_def using set_objSet_subset [of mp k ob]
  by (auto simp: distinct_objSet)

lemma wfMap_students: "wfMap mp \<Longrightarrow> distinct (objKeys (case map_of mp l of None \<Rightarrow> [] | Some ob \<Rightarrow> ob))"
  by (auto simp: wfMap_def objKeys_def split: option.splits dest!: map_of_SomeD)

lemma recordStep_wfMap: "recordStep mp r = Stays mp' \<Longrightarrow> wfMap mp \<Longrightarrow> wfMap mp'"
  unfolding recordStep_def Let_def
  by (auto split: if_splits intro!: wfMap_objSet distinct_objSet wfMap_students)

lemma wfMap_answerMap: "wfMap (answerMap a)"
proof -
  have "fst \<circ> (\<lambda>(lvl, ob). (lvl, DAList.impl_of ob)) = (fst :: string \<times> (string, result_doc) alist \<Rightarrow> string)"
    by (rule ext) (simp add: split_def)
  then have "distinct (objKeys (answerMap a))"
    by (simp add: objKeys_def answerMap_def)
  moreover have "\<forall>ob \<in> snd ` set (answerMap a). distinct (objKeys ob)"
    by (auto simp: objKeys_def answerMap_def)
  ultimately show ?thesis by (simp add: wfMap_def)
qed

lemma latestLoop_wfMap: "wfMap mp \<Longrightarrow> wfMap (latestLoop host mp rs)"
  by (induction rs arbitrary: mp)
    (auto split: step.splits dest: recordStep_wfMap simp: wfMap_answerMap)

lemma latestPerStudent_wfMap: "wfMap (latestPerStudent host rs)"
  unfolding latestPerStudent_def by (rule latestLoop_wfMap) (simp add: wfMap_def objKeys_def)

lemma stored_objSet:
  "stored (objSet mp k ob) l n = (if l = k then map_of ob n else stored mp l n)"
  by (simp add: stored_def studentsOf_def map_of_objSet)

lemma timeOf_None: "timeOf None = 0"
  by (simp add: timeOf_def)

lemma recordStep_stored:
  assumes "recordStep mp r = Stays mp'"
  shows "stored mp' l n =
    (if l = levelKey r \<and> n = displayName r then keepLatest n (stored mp l n) r else stored mp l n)"
proof -
  let ?lvl = "levelKey r" and ?name = "displayName r"
  let ?st = "case map_of mp ?lvl of None \<Rightarrow> [] | Some ob \<Rightarrow> ob"
  have st: "stored mp ?lvl n = map_of ?st n" for n
    by (simp add: stored_def studentsOf_def)
  show ?thesis
    using assms unfolding recordStep_def Let_def
    by (auto simp: stored_objSet map_of_objSet st keepLatest_def getProp_def timeOf_None
        split: if_splits option.splits)
qed

lemma recordStep_stays:
  "levelKey r \<notin> set objectPrototypeKeys \<Longrightarrow> displayName r \<noteq> ''__proto__''
   \<Longrightarrow> \<exists>mp'. recordStep mp r = Stays mp'"
  by (simp add: recordStep_def Let_def)

lemma latestLoop_stored:
  "\<forall>r \<in> set rs. levelKey r \<notin> set objectPrototypeKeys \<and> displayName r \<noteq> ''__proto__'' \<Longrightarrow>
   stored (latestLoop host mp rs) l n =
     foldl (keepLatest n) (stored mp l n)
       (filter (\<lambda>r. levelKey r = l \<and> displayName r = n) rs)"
proof (induction rs arbitrary: mp)
  case Nil
  then show ?case by simp
next
  case (Cons r rs)
  from Cons.prems recordStep_stays [of r mp] obtain mp1 where s: "recordStep mp r = Stays mp1"
    by auto
  from Cons.prems have rest:
    "\<forall>r \<in> set rs. levelKey r \<notin> set objectPrototypeKeys \<and> displayName r \<noteq> ''__proto__''"
    by simp
  show ?case
    using Cons.IH [OF rest, of mp1] recordStep_stored [OF s, of l n] s by auto
qed

lemma foldl_keepLatest_Some:
  "\<exists>w. foldl (keepLatest n) (Some p) rs = Some w \<and> timeOf (createdAt p) \<le> timeOf (createdAt w)
       \<and> (\<forall>r \<in> set rs. timeOf (createdAt r) \<le> timeOf (createdAt w))"
proof (induction rs arbitrary: p)
  case Nil
  then show ?case by simp
next
  case (Cons r rs)
  show ?case
  proof (cases "timeOf (createdAt r) > timeOf (createdAt p)")
    case True
    with Cons.IH [of r] show ?thesis by (fastforce simp: keepLatest_def)
  next
    case False
    with Cons.IH [of p] show ?thesis by (fastforce simp: keepLatest_def)
  qed
qed

lemma foldl_keepLatest_positive:
  "r \<in> set rs \<Longrightarrow> 0 < timeOf (createdAt r) \<Longrightarrow>
   \<exists>w. foldl (keepLatest n) acc rs = Some w \<and> timeOf (createdAt r) \<le> timeOf (createdAt w)"
proof (induction rs arbitrary: acc)
  case Nil
  then show ?case by simp
next
  case (Cons x rs)
  show ?case
  proof (cases "keepLatest n acc x")
    case None
    then have "\<not> 0 < timeOf (createdAt x)"
      by (auto simp: keepLatest_def split: option.splits if_splits)
    with Cons.prems have "r \<in> set rs" by auto
    with Cons show ?thesis by simp
  next
    case (Some p)
    from foldl_keepLatest_Some [of n p rs] obtain w where
      w: "foldl (keepLatest n) (Some p) rs = Some w" "timeOf (createdAt p) \<le> timeOf (createdAt w)"
         "\<forall>r \<in> set rs. timeOf (createdAt r) \<le> timeOf (createdAt w)" by blast
    have "timeOf (createdAt x) \<le> timeOf (createdAt p)"
      using Some by (auto simp: keepLatest_def split: option.splits if_splits)
    with w Cons.prems(1) Some show ?thesis by auto
  qed
qed

lemma latestPerStudent_positive:
  assumes "\<forall>r \<in> set rs. levelKey r \<notin> set objectPrototypeKeys \<and> displayName r \<noteq> ''__proto__''"
    and "r \<in> set rs" and "0 < timeOf (createdAt r)"
  shows "\<exists>w. stored (latestPerStudent host rs) (levelKey r) (displayName r) = Some w \<and>
             timeOf (createdAt r) \<le> timeOf (createdAt w)"
proof -
  have "stored (latestPerStudent host rs) (levelKey r) (displayName r) =
     foldl (keepLatest (displayName r)) (stored [] (levelKey r) (displayName r))
       (filter (\<lambda>x. levelKey x = levelKey r \<and> displayName x = displayName r) rs)"
    unfolding latestPerStudent_def using assms(1) by (rule latestLoop_stored)
  moreover have "r \<in> set (filter (\<lambda>x. levelKey x = levelKey r \<and> displayName x = displayName r) rs)"
    using assms(2) by simp
  ultimately show ?thesis
    using foldl_keepLatest_positive [OF _ assms(3)] by metis
qed

lemma foldl_keepLatest_first_max:
  assumes plain: "n \<notin> set objectPrototypeKeys"
  shows "g \<noteq> [] \<Longrightarrow>
    \<exists>i<length g. foldl (keepLatest n) None g = Some (g ! i) \<and>
       (\<forall>j<length g. timeOf (createdAt (g ! j)) \<le> timeOf (createdAt (g ! i))) \<and>
       (\<forall>j<i. timeOf (createdAt (g ! j)) < timeOf (createdAt (g ! i)))"
proof (induction g rule: rev_induct)
  case Nil
  then show ?case by simp
next
  case (snoc x g)
  show ?case
  proof (cases "g = []")
    case True
    with plain show ?thesis by (simp add: keepLatest_def)
  next
    case False
    from snoc.IH [OF False] obtain i where i: "i < length g"
      "foldl (keepLatest n) None g = Some (g ! i)"
      "\<forall>j<length g. timeOf (createdAt (g ! j)) \<le> timeOf (createdAt (g ! i))"
      "\<forall>j<i. timeOf (createdAt (g ! j)) < timeOf (createdAt (g ! i))"
      by blast
    show ?thesis
    proof (cases "timeOf (createdAt x) > timeOf (createdAt (g ! i))")
      case True
      have "foldl (keepLatest n) None (g @ [x]) = Some ((g @ [x]) ! length g)"
        using i(2) True by (simp add: keepLatest_def)
      moreover have "\<forall>j<length (g @ [x]). timeOf (createdAt ((g @ [x]) ! j))
            \<le> timeOf (createdAt ((g @ [x]) ! length g))"
        using i(3) True by (fastforce simp: nth_append less_Suc_eq)
      moreover have "\<forall>j<length g. timeOf (createdAt ((g @ [x]) ! j))
            < timeOf (createdAt ((g @ [x]) ! length g))"
        using i(3) True by (fastforce simp: nth_append)
      ultimately show ?thesis by (intro exI [of _ "length g"]) simp
    next
      case False
      have "foldl (keepLatest n) None (g @ [x]) = Some ((g @ [x]) ! i)"
        using i(1,2) False by (simp add: keepLatest_def nth_append)
      moreover have "\<forall>j<length (g @ [x]). timeOf (createdAt ((g @ [x]) ! j))
            \<le> timeOf (createdAt ((g @ [x]) ! i))"
        using i(1,3) False by (auto simp: nth_append less_Suc_eq)
      moreover have "\<forall>j<i. timeOf (createdAt ((g @ [x]) ! j))
            < timeOf (createdAt ((g @ [x]) ! i))"
        using i(1,4) by (auto simp: nth_append)
      ultimately show ?thesis using i(1) by (intro exI [of _ i]) simp
    qed
  qed
qed

text \<open>
  When no level is a name that plain objects inherit and no name is \<^verbatim>\<open>__proto__\<close>,
  the loop keeps, for a display name that plain objects do not inherit, the first
  record of greatest time of each (level, name) group, where a missing
  \<open>createdAt\<close> counts as 0; a group with no record has no entry.
\<close>

lemma latestPerStudent_plain_name:
  assumes "\<forall>r \<in> set rs. levelKey r \<notin> set objectPrototypeKeys \<and> displayName r \<noteq> ''__proto__''"
    and "n \<notin> set objectPrototypeKeys"
  shows "let g = filter (\<lambda>r. levelKey r = l \<and> displayName r = n) rs in
     (g = [] \<longrightarrow> stored (latestPerStudent host rs) l n = None) \<and>
     (g \<noteq> [] \<longrightarrow>
        (\<exists>i<length g. stored (latestPerStudent host rs) l n = Some (g ! i) \<and>
           (\<forall>j<length g. timeOf (createdAt (g ! j)) \<le> timeOf (createdAt (g ! i))) \<and>
           (\<forall>j<i. timeOf (createdAt (g ! j)) < timeOf (createdAt (g ! i)))))"
proof -
  have "stored (latestPerStudent host rs) l n = foldl (keepLatest n) (stored [] l n)
       (filter (\<lambda>r. levelKey r = l \<and> displayName r = n) rs)"
    unfolding latestPerStudent_def using assms(1) by (rule latestLoop_stored)
  moreover have "stored [] l n = None"
    by (simp add: stored_def studentsOf_def)
  ultimately show ?thesis
    using foldl_keepLatest_first_max [OF assms(2)] by (simp add: Let_def)
qed

subsection \<open>Entries of the visible list\<close>

lemma distinct_concat_levels:
  assumes "distinct ls"
    and "\<And>l. l \<in> set ls \<Longrightarrow> distinct (map g (f l))"
    and "\<And>l e. l \<in> set ls \<Longrightarrow> e \<in> set (f l) \<Longrightarrow> fst (g e) = l"
  shows "distinct (map g (concat (map f ls)))"
  using assms
proof (induction ls)
  case Nil
  then show ?case by simp
next
  case (Cons l ls)
  have "distinct (map g (concat (map f ls)))"
    using Cons by simp
  moreover have "distinct (map g (f l))" using Cons.prems by simp
  moreover have "g ` set (f l) \<inter> g ` (\<Union>x\<in>set ls. set (f x)) = {}"
  proof -
    { fix a b x
      assume a: "a \<in> set (f l)" and x: "x \<in> set ls" and b: "b \<in> set (f x)" and eq: "g a = g b"
      from a Cons.prems(3) have "fst (g a) = l" by simp
      moreover from b x Cons.prems(3) have "fst (g b) = x" by simp
      ultimately have "x = l" using eq by simp
      with x Cons.prems(1) have False by simp }
    then show ?thesis by blast
  qed
  ultimately show ?case by simp
qed

lemma studentsOf_distinct: "wfMap mp \<Longrightarrow> distinct (objKeys (studentsOf mp lvl))"
  by (auto simp: wfMap_def studentsOf_def objKeys_def split: option.splits dest!: map_of_SomeD)

lemma filtered_entries_names:
  "e \<in> set (concat (map (\<lambda>(name, d). if P name then []
        else [\<lparr>entryLevel = l, entryName = name, entryDoc = d\<rparr>]) ps))
   \<Longrightarrow> entryName e \<in> fst ` set ps \<and> entryLevel e = l"
  by (induction ps) (auto split: if_splits)

lemma distinct_filtered_entries:
  "distinct (map fst ps) \<Longrightarrow>
   distinct (map (\<lambda>e. (entryLevel e, entryName e))
     (concat (map (\<lambda>(name, d). if P name then []
        else [\<lparr>entryLevel = l, entryName = name, entryDoc = d\<rparr>]) ps)))"
proof (induction ps)
  case Nil
  then show ?case by simp
next
  case (Cons p ps)
  obtain name d where p: "p = (name, d)" by (cases p)
  define es where "es = concat (map (\<lambda>(name, d). if P name then []
        else [\<lparr>entryLevel = l, entryName = name, entryDoc = d\<rparr>]) ps)"
  from Cons have IH: "distinct (map (\<lambda>e. (entryLevel e, entryName e)) es)"
    by (simp add: es_def)
  from Cons.prems p have "name \<notin> fst ` set ps" by simp
  then have "\<And>e. e \<in> set es \<Longrightarrow> entryName e \<noteq> name"
    unfolding es_def using filtered_entries_names [of _ P l ps] by blast
  then have fresh: "(l, name) \<notin> (\<lambda>e. (entryLevel e, entryName e)) ` set es"
    by auto
  show ?case
  proof (cases "P name")
    case True
    with IH p show ?thesis by (simp add: es_def)
  next
    case False
    with IH p fresh show ?thesis by (simp add: es_def)
  qed
qed

lemma candidateLevels_distinct: "wfMap mp \<Longrightarrow> distinct (candidateLevels mp)"
  by (auto simp: wfMap_def candidateLevels_def)

lemma visible_distinct_pairs:
  assumes "wfMap mp"
  shows "distinct (map (\<lambda>e. (entryLevel e, entryName e)) (visible collate mp lf txt))"
  unfolding visible_def distinct_map_arraySort
proof (rule distinct_concat_levels)
  show "distinct (candidateLevels mp)" using assms by (rule candidateLevels_distinct)
next
  fix l
  have d: "distinct (map fst (studentsOf mp l))"
    using studentsOf_distinct [OF assms, of l] by (simp add: objKeys_def)
  show "distinct (map (\<lambda>e. (entryLevel e, entryName e))
          (if lf \<noteq> ''all'' \<and> l \<noteq> lf then []
           else concat (map (\<lambda>(name, d).
                 if txt \<noteq> [] \<and> \<not> includesStr (toLowerCase name) (toLowerCase txt)
                 then []
                 else [\<lparr>entryLevel = l, entryName = name, entryDoc = d\<rparr>])
               (studentsOf mp l))))"
    using distinct_filtered_entries [OF d] by simp
next
  fix l e
  assume "e \<in> set (if lf \<noteq> ''all'' \<and> l \<noteq> lf then []
           else concat (map (\<lambda>(name, d).
                 if txt \<noteq> [] \<and> \<not> includesStr (toLowerCase name) (toLowerCase txt)
                 then []
                 else [\<lparr>entryLevel = l, entryName = name, entryDoc = d\<rparr>])
               (studentsOf mp l)))"
  then show "fst (entryLevel e, entryName e) = l"
    using filtered_entries_names [of e _ l "studentsOf mp l"] by (auto split: if_splits)
qed

subsection \<open>Labels and bars\<close>

lemma labelOf_plain:
  "k \<notin> set (objKeys LABELS) \<Longrightarrow> k \<notin> set objectPrototypeKeys \<Longrightarrow> labelOf k = Str k"
proof -
  assume "k \<notin> set (objKeys LABELS)"
  then have "map_of LABELS k = None"
    by (simp add: objKeys_def map_of_eq_None_iff)
  moreover assume "k \<notin> set objectPrototypeKeys"
  ultimately show ?thesis
    by (simp add: labelOf_def getProp_def)
qed

lemma sorted_scores:
  "sorted_wrt (\<lambda>a b. snd b \<le> (snd a :: int)) (arraySort (\<lambda>a b. snd b - snd a) ob)"
proof -
  have "sorted_wrt (\<lambda>a b. (\<lambda>a b. snd b - (snd a :: int)) a b \<le> 0) (arraySort (\<lambda>a b. snd b - snd a) ob)"
    by (rule sorted_arraySort) auto
  then show ?thesis by simp
qed

lemma sorted_wrt_take: "sorted_wrt P xs \<Longrightarrow> sorted_wrt P (take n xs)"
  by (induction xs arbitrary: n) (auto simp: take_Cons split: nat.splits dest: in_set_takeD)

lemma map_of_filter_keys:
  "map_of (filter (\<lambda>(k, v). P k) ob) key = (if P key then map_of ob key else None)"
  by (induction ob) auto

lemma barRow_listed:
  "key \<in> set INTELLIGENCE_KEYS \<Longrightarrow>
   barRow (filter (\<lambda>(k, v). k \<in> set INTELLIGENCE_KEYS) sc) key = barRow sc key"
  by (simp add: barRow_def getProp_def map_of_filter_keys)

subsection \<open>latestPerStudent\<close>

text \<open>
  What the model says of a sequence that starts with a record whose level is a name
  that plain objects inherit: the map is the host's.
\<close>

lemma latestPerStudent_reaches_host:
  "levelKey r \<in> set objectPrototypeKeys \<Longrightarrow>
   latestPerStudent host (r # rs) = answerMap (host [] (r # rs))"
  by (simp add: latestPerStudent_def recordStep_def Let_def)

text \<open>
  C1. For every sequence of records, \<open>latestPerStudent\<close> keeps exactly one record per
  (level, display name) pair, the first one with the greatest \<open>createdAt\<close>. The
  loop does not do so for a name that plain objects inherit: for the single record
  of a student whose first name is \<open>constructor\<close>, with no last name and no
  \<open>createdAt\<close>, the test \<^verbatim>\<open>!map[lvl][name]\<close> finds the inherited member, the record
  is compared with it at time 0 against 0, and nothing is kept for the pair,
  whatever the host. (For the other names the property holds:
  \<open>latestPerStudent_plain_name\<close>.)
\<close>

theorem latestPerStudent_drops_inherited_name:
  "levelKey (mkDoc ''a'' ''constructor'' [] ''level1'' None) = ''level1'' \<and>
   displayName (mkDoc ''a'' ''constructor'' [] ''level1'' None) = ''constructor'' \<and>
   latestPerStudent host [mkDoc ''a'' ''constructor'' [] ''level1'' None] = [(''level1'', [])] \<and>
   stored (latestPerStudent host [mkDoc ''a'' ''constructor'' [] ''level1'' None])
     ''level1'' ''constructor'' = None"
  by code_simp

text \<open>
  C6 (as stated). A record with no \<open>createdAt\<close> counts as time 0 and loses to any
  record of its group that has a \<open>createdAt\<close>. It does not lose to a date before the
  epoch: after a record dated one day before 1970, the record with no \<open>createdAt\<close>
  is the one kept.
\<close>

theorem missing_createdAt_displaces_early_date:
  "createdAt (mkDoc ''b'' ''Amy'' ''Lee'' ''level1'' None) = None \<and>
   (\<forall>host. latestPerStudent host
              [mkDoc ''a'' ''Amy'' ''Lee'' ''level1'' (Some (- 86400000)),
               mkDoc ''b'' ''Amy'' ''Lee'' ''level1'' None]
     = [(''level1'', [(''Amy Lee'', mkDoc ''b'' ''Amy'' ''Lee'' ''level1'' None)])])"
proof -
  have "latestPerStudent host
              [mkDoc ''a'' ''Amy'' ''Lee'' ''level1'' (Some (- 86400000)),
               mkDoc ''b'' ''Amy'' ''Lee'' ''level1'' None]
     = [(''level1'', [(''Amy Lee'', mkDoc ''b'' ''Amy'' ''Lee'' ''level1'' None)])]" for host
    by code_simp
  then show ?thesis by (simp add: mkDoc_def)
qed

text \<open>
  C6 (amended). In the deduplication of a record sequence in which no level is a
  name that plain objects inherit from \<^verbatim>\<open>Object.prototype\<close> and no display name is
  \<^verbatim>\<open>__proto__\<close>, a record with no \<open>createdAt\<close> counts as time 0 and loses to any
  record of its group whose \<open>createdAt\<close> is after the epoch (a time value above 0):
  the document kept for the group then has a \<open>createdAt\<close>, no earlier than that
  record's.
\<close>

theorem missing_createdAt_loses_to_later:
  assumes "\<forall>r \<in> set rs. levelKey r \<notin> set objectPrototypeKeys \<and> displayName r \<noteq> ''__proto__''"
    and "a \<in> set rs" and "b \<in> set rs"
    and "levelKey a = levelKey b" and "displayName a = displayName b"
    and "createdAt a = None" and "createdAt b = Some t" and "0 < t"
  shows "timeOf (createdAt a) = 0 \<and>
         (\<exists>w. stored (latestPerStudent host rs) (levelKey a) (displayName a) = Some w \<and>
              t \<le> timeOf (createdAt w) \<and> createdAt w \<noteq> None)"
proof -
  have "0 < timeOf (createdAt b)" using assms(7,8) by (simp add: timeOf_def)
  from latestPerStudent_positive [OF assms(1,3) this] obtain w where
    w: "stored (latestPerStudent host rs) (levelKey b) (displayName b) = Some w"
       "timeOf (createdAt b) \<le> timeOf (createdAt w)"
    by blast
  from w(2) assms(7,8) have "t \<le> timeOf (createdAt w)" "createdAt w \<noteq> None"
    by (auto simp: timeOf_def split: option.splits)
  with w(1) assms(4,5,6) show ?thesis by (simp add: timeOf_def)
qed

theorem missing_createdAt_loses_to_later_witness:
  "levelKey (mkDoc ''a'' ''Amy'' ''Lee'' ''level1'' None) = ''level1'' \<and>
   displayName (mkDoc ''a'' ''Amy'' ''Lee'' ''level1'' None) = ''Amy Lee'' \<and>
   levelKey (mkDoc ''b'' ''Amy'' ''Lee'' ''level1'' (Some 86400000)) = ''level1'' \<and>
   displayName (mkDoc ''b'' ''Amy'' ''Lee'' ''level1'' (Some 86400000)) = ''Amy Lee'' \<and>
   ''level1'' \<notin> set objectPrototypeKeys \<and> ''Amy Lee'' \<noteq> ''__proto__'' \<and>
   (\<forall>host. latestPerStudent host
       [mkDoc ''a'' ''Amy'' ''Lee'' ''level1'' None,
        mkDoc ''b'' ''Amy'' ''Lee'' ''level1'' (Some 86400000)]
     = [(''level1'', [(''Amy Lee'', mkDoc ''b'' ''Amy'' ''Lee'' ''level1'' (Some 86400000))])]) \<and>
   (\<forall>host. \<exists>w.
       stored (latestPerStudent host
                 [mkDoc ''a'' ''Amy'' ''Lee'' ''level1'' None,
                  mkDoc ''b'' ''Amy'' ''Lee'' ''level1'' (Some 86400000)])
         ''level1'' ''Amy Lee'' = Some w \<and>
       86400000 \<le> timeOf (createdAt w) \<and> createdAt w \<noteq> None)"
proof -
  let ?a = "mkDoc ''a'' ''Amy'' ''Lee'' ''level1'' None"
  let ?b = "mkDoc ''b'' ''Amy'' ''Lee'' ''level1'' (Some 86400000)"
  have run: "latestPerStudent host [?a, ?b] = [(''level1'', [(''Amy Lee'', ?b)])]" for host
    by code_simp
  have la: "levelKey ?a = ''level1''" and lb: "levelKey ?b = ''level1''"
    by (simp_all add: levelKey_def mkDoc_def)
  have na: "displayName ?a = ''Amy Lee''" and nb: "displayName ?b = ''Amy Lee''"
    by code_simp+
  have ca: "createdAt ?a = None" and cb: "createdAt ?b = Some 86400000"
    by (simp_all add: mkDoc_def)
  have plain: "''level1'' \<notin> set objectPrototypeKeys" "''Amy Lee'' \<noteq> ''__proto__''"
    by (simp_all add: objectPrototypeKeys_def)
  have inp: "\<forall>r \<in> set [?a, ?b].
      levelKey r \<notin> set objectPrototypeKeys \<and> displayName r \<noteq> ''__proto__''"
    using la lb na nb plain by simp
  have kept: "\<exists>w. stored (latestPerStudent host [?a, ?b]) ''level1'' ''Amy Lee'' = Some w \<and>
        86400000 \<le> timeOf (createdAt w) \<and> createdAt w \<noteq> None" for host
    using missing_createdAt_loses_to_later [OF inp, of ?a ?b 86400000 host] la lb na nb ca cb
    by simp
  from run kept la lb na nb plain show ?thesis by blast
qed

subsection \<open>visible\<close>

text \<open>
  C2. For every map of retained records (so for the one built from any record
  sequence), every level filter and every search text, each entry of \<open>visible\<close> has
  the filtered level unless the filter is \<open>all\<close>, and its name contains the search
  text, both in lower case, unless the search text is empty.
\<close>

theorem visible_respects_filters:
  "\<forall>e \<in> set (visible collate mp lf txt).
     (lf = ''all'' \<or> entryLevel e = lf) \<and>
     (txt = [] \<or> includesStr (toLowerCase (entryName e)) (toLowerCase txt))"
  unfolding visible_def set_arraySort
  by (auto split: if_splits)

theorem visible_respects_filters_witness:
  "set (visible length [(''level1'', [(''Amy Lee'', mkDoc ''a'' ''Amy'' ''Lee'' ''level1'' None)]),
                        (''level2'', [(''Bob Roy'', mkDoc ''b'' ''Bob'' ''Roy'' ''level2'' None),
                                      (''Camille'', mkDoc ''c'' ''Camille'' '''' ''level2'' None)])]
          ''level2'' ''OB'')
     = {\<lparr>entryLevel = ''level2'', entryName = ''Bob Roy'',
          entryDoc = mkDoc ''b'' ''Bob'' ''Roy'' ''level2'' None\<rparr>} \<and>
   includesStr (toLowerCase ''Bob Roy'') (toLowerCase ''OB'')"
  using visible_respects_filters [of length "[(''level1'', [(''Amy Lee'', mkDoc ''a'' ''Amy'' ''Lee'' ''level1'' None)]),
                        (''level2'', [(''Bob Roy'', mkDoc ''b'' ''Bob'' ''Roy'' ''level2'' None),
                                      (''Camille'', mkDoc ''c'' ''Camille'' '''' ''level2'' None)])]" "''level2''" "''OB''"]
  by (simp add: visible_def candidateLevels_def objKeys_def studentsOf_def toLowerCase_def isUpper_def localeCompare_def)

text \<open>
  C3. For every map of retained records and every filter state, \<open>visible\<close> is in
  ascending order of the display names under \<open>localeCompare\<close>.
\<close>

theorem visible_sorted_by_name:
  "sorted_wrt (\<lambda>a b. localeCompare collate (entryName a) (entryName b) \<le> 0)
     (visible collate mp lf txt)"
  unfolding visible_def
  by (rule sorted_arraySort) (auto simp: localeCompare_le)

text \<open>
  C9. The candidate levels of \<open>visible\<close> are exactly the levels of
  \<open>latestPerStudent\<close> when it has any, and the four fixed levels when it has none;
  every entry of \<open>visible\<close> has a candidate level.
\<close>

theorem visible_candidate_levels:
  "(objKeys mp \<noteq> [] \<longrightarrow>
      candidateLevels mp = objKeys mp \<and> set (candidateLevels mp) = set (objKeys mp)) \<and>
   (objKeys mp = [] \<longrightarrow> candidateLevels mp = [''level1'', ''level2'', ''level3'', ''level4'']) \<and>
   (\<forall>e \<in> set (visible collate mp lf txt). entryLevel e \<in> set (candidateLevels mp))"
  unfolding visible_def set_arraySort
  by (auto simp: candidateLevels_def split: if_splits)

theorem visible_candidate_levels_witness:
  "objKeys [(''level2'', [(''Bob Roy'', mkDoc ''b'' ''Bob'' ''Roy'' ''level2'' None)])] \<noteq> [] \<and>
   candidateLevels [(''level2'', [(''Bob Roy'', mkDoc ''b'' ''Bob'' ''Roy'' ''level2'' None)])]
     = [''level2''] \<and>
   objKeys ([] :: student_map) = [] \<and>
   candidateLevels [] = [''level1'', ''level2'', ''level3'', ''level4''] \<and>
   set (map entryLevel
     (visible length [(''level2'', [(''Bob Roy'', mkDoc ''b'' ''Bob'' ''Roy'' ''level2'' None)])]
        ''all'' [])) = {''level2''}"
  using visible_candidate_levels
      [of "[(''level2'', [(''Bob Roy'', mkDoc ''b'' ''Bob'' ''Roy'' ''level2'' None)])]" length "''all''" "[]"]
    visible_candidate_levels [of "[]" length "''all''" "[]"]
  by (simp add: objKeys_def visible_def candidateLevels_def studentsOf_def)

text \<open>
  C10. For every record sequence, whatever the host, and every filter state, no two
  entries of \<open>visible\<close> have the same (level, display name) pair.
\<close>

theorem visible_pairs_unique:
  "distinct (map (\<lambda>e. (entryLevel e, entryName e))
     (visible collate (latestPerStudent host rs) lf txt))"
  by (intro visible_distinct_pairs latestPerStudent_wfMap)

subsection \<open>topIntelligences and the bar chart\<close>

lemma mset_insertSorted: "mset (insertSorted cmp x ys) = add_mset x (mset ys)"
  by (induction ys) auto

lemma mset_arraySort: "mset (arraySort cmp xs) = mset xs"
  by (induction xs) (auto simp: mset_insertSorted)

lemma length_filter_arraySort:
  "length (filter P (arraySort cmp xs)) = length (filter P xs)"
proof -
  have "mset (filter P (arraySort cmp xs)) = mset (filter P xs)"
    by (simp add: mset_arraySort)
  then show ?thesis by (metis size_mset)
qed

lemma labelOf_cases:
  "labelOf k =
     (case map_of LABELS k of
        Some l \<Rightarrow> Str l
      | None \<Rightarrow> if k \<in> set objectPrototypeKeys then ProtoMember k else Str k)"
proof (cases "map_of LABELS k")
  case None
  then show ?thesis by (simp add: labelOf_def getProp_def)
next
  case (Some l)
  then have "l \<noteq> []" by (auto simp: LABELS_def split: if_splits)
  with Some show ?thesis by (simp add: labelOf_def getProp_def)
qed

lemma top_three_member:
  assumes "(k, v) \<in> set sc" and "length (filter (\<lambda>x. v \<le> snd x) sc) \<le> 3"
  shows "(k, v) \<in> set (take 3 (arraySort (\<lambda>a b. snd b - snd a) sc))"
proof (rule ccontr)
  let ?srt = "arraySort (\<lambda>a b. snd b - snd a) sc"
  let ?P = "\<lambda>x. v \<le> snd x"
  assume out: "(k, v) \<notin> set (take 3 ?srt)"
  have "(k, v) \<in> set ?srt"
    using assms(1) by (simp add: set_arraySort)
  then have "(k, v) \<in> set (take 3 ?srt) \<union> set (drop 3 ?srt)"
    by (metis append_take_drop_id set_append)
  with out have inDrop: "(k, v) \<in> set (drop 3 ?srt)" by blast
  then have long: "3 < length ?srt" by (cases "3 < length ?srt") auto
  have "sorted_wrt (\<lambda>a b. snd b \<le> snd a) (take 3 ?srt @ drop 3 ?srt)"
    using sorted_scores [of sc] by simp
  then have "\<forall>x \<in> set (take 3 ?srt). \<forall>y \<in> set (drop 3 ?srt). snd y \<le> snd x"
    unfolding sorted_wrt_append by blast
  with inDrop have "\<forall>x \<in> set (take 3 ?srt). ?P x" by fastforce
  then have "filter ?P (take 3 ?srt) = take 3 ?srt" by (simp add: filter_id_conv)
  then have "length (filter ?P (take 3 ?srt)) = 3" using long by simp
  moreover have "filter ?P (drop 3 ?srt) \<noteq> []"
    using inDrop by (force simp: filter_empty_conv)
  then have "0 < length (filter ?P (drop 3 ?srt))" by simp
  moreover have "length (filter ?P ?srt)
      = length (filter ?P (take 3 ?srt)) + length (filter ?P (drop 3 ?srt))"
    by (metis append_take_drop_id filter_append length_append)
  ultimately have "3 < length (filter ?P ?srt)" by simp
  then show False using assms(2) by (simp add: length_filter_arraySort)
qed

lemma topIntelligencesIn_eq:
  "topIntelligencesIn n st =
     (topIntelligences (Some (scoresObject st)) n,
      st\<lparr>entriesArray := arraySort (\<lambda>a b. snd b - snd a) (scoresObject st)\<rparr>)"
  by (simp add: topIntelligencesIn_def topIntelligences_def Let_def)

text \<open>
  C4. \<open>topIntelligences scores 3\<close> has at most 3 labels and no more labels than
  \<open>scores\<close> has keys; the labels are those of entries of \<open>scores\<close> in descending
  order of score; with no \<open>scores\<close> the result is empty.
\<close>

theorem topIntelligences_three:
  "length (topIntelligences (Some sc) 3) \<le> 3 \<and>
   length (topIntelligences (Some sc) 3) \<le> length (objKeys sc) \<and>
   (\<exists>es. topIntelligences (Some sc) 3 = map (\<lambda>(k, v). labelOf k) es \<and>
         set es \<subseteq> set sc \<and>
         sorted_wrt (\<lambda>a b. snd b \<le> snd a) es) \<and>
   topIntelligences None 3 = []"
proof -
  let ?es = "take 3 (arraySort (\<lambda>a b. snd b - snd a) sc)"
  have "topIntelligences (Some sc) 3 = map (\<lambda>(k, v). labelOf k) ?es"
    by (simp add: topIntelligences_def)
  moreover have "set ?es \<subseteq> set sc"
    using set_take_subset [of 3 "arraySort (\<lambda>a b. snd b - snd a) sc"] by (simp add: set_arraySort)
  moreover have "sorted_wrt (\<lambda>a b. snd b \<le> snd a) ?es"
    by (rule sorted_wrt_take) (rule sorted_scores)
  moreover have "length (topIntelligences (Some sc) 3) \<le> 3"
    by (simp add: topIntelligences_def)
  moreover have "length (topIntelligences (Some sc) 3) \<le> length (objKeys sc)"
    by (simp add: topIntelligences_def length_arraySort objKeys_def)
  moreover have "topIntelligences None 3 = []"
    by (simp add: topIntelligences_def)
  ultimately show ?thesis by blast
qed

text \<open>
  C5 (as stated). Keys of \<open>scores\<close> outside the eight categories contribute nothing
  to the top labels. They do: the key \<open>Linguistique\<close> is not one of the eight, and it
  is the first top label of these scores, while the scores without it give one label.
\<close>

theorem unlisted_score_in_top_labels:
  "''Linguistique'' \<notin> set INTELLIGENCE_KEYS \<and>
   topIntelligences (Some [(''Linguistique'', 7), (''Spatial'', 3)]) 3
     = [Str ''Linguistique'', Str ''Spatial''] \<and>
   topIntelligences (Some (filter (\<lambda>(k, v). k \<in> set INTELLIGENCE_KEYS)
        [(''Linguistique'', 7), (''Spatial'', 3)])) 3 = [Str ''Spatial'']"
  by code_simp

text \<open>
  C5 (amended). Keys of \<open>scores\<close> outside the eight categories are ignored by the
  bar chart, and they stay in the record, which rendering does not modify: the chart
  of \<open>scores\<close> is the chart of \<open>scores\<close> restricted to the eight, and rendering
  leaves the object \<open>scores\<close> as it was. They are not ignored by the top labels:
  \<open>topIntelligences\<close> ranks every entry, so the label of a key, listed or not, is
  among the top labels whenever at most three entries of \<open>scores\<close> have a score at
  least as high as its own. The label of a key is its entry in \<open>LABELS\<close> if it has
  one; otherwise the member of that name that plain objects inherit from
  \<^verbatim>\<open>Object.prototype\<close> if there is one; otherwise the key itself.
\<close>

theorem unlisted_scores_rendering:
  "barChart (filter (\<lambda>(k, v). k \<in> set INTELLIGENCE_KEYS) sc) = barChart sc \<and>
   (\<forall>k v. (k, v) \<in> set sc \<longrightarrow> length (filter (\<lambda>x. v \<le> snd x) sc) \<le> 3 \<longrightarrow>
      labelOf k \<in> set (topIntelligences (Some sc) 3)) \<and>
   (\<forall>k. labelOf k =
      (case map_of LABELS k of
         Some l \<Rightarrow> Str l
       | None \<Rightarrow> if k \<in> set objectPrototypeKeys then ProtoMember k else Str k)) \<and>
   fst (renderScores st) = (topIntelligences (Some (scoresObject st)) 3, barChart (scoresObject st)) \<and>
   scoresObject (snd (renderScores st)) = scoresObject st"
proof -
  have bars: "barChart (filter (\<lambda>(k, v). k \<in> set INTELLIGENCE_KEYS) sc) = barChart sc"
    unfolding barChart_def by (rule map_cong) (auto simp: barRow_listed)
  have top: "labelOf k \<in> set (topIntelligences (Some sc) 3)"
    if "(k, v) \<in> set sc" "length (filter (\<lambda>x. v \<le> snd x) sc) \<le> 3" for k v
  proof -
    from top_three_member [OF that]
    have "(\<lambda>(k, v). labelOf k) (k, v) \<in> (\<lambda>(k, v). labelOf k) ` set (take 3 (arraySort (\<lambda>a b. snd b - snd a) sc))"
      by (rule imageI)
    then show ?thesis by (simp add: topIntelligences_def)
  qed
  have store: "fst (renderScores st) = (topIntelligences (Some (scoresObject st)) 3, barChart (scoresObject st))"
    "scoresObject (snd (renderScores st)) = scoresObject st"
    by (simp_all add: renderScores_def topIntelligencesIn_eq)
  from bars top labelOf_cases store show ?thesis by blast
qed

theorem unlisted_scores_rendering_witness:
  "(''Linguistique'', 7) \<in> set [(''Spatial'', 3), (''Musical'', 2), (''Linguistique'', 7), (''Naturalistic'', 1 :: int)] \<and>
   length (filter (\<lambda>x. 7 \<le> snd x)
     [(''Spatial'', 3), (''Musical'', 2), (''Linguistique'', 7), (''Naturalistic'', 1 :: int)]) \<le> 3 \<and>
   labelOf ''Linguistique'' \<in> set (topIntelligences
     (Some [(''Spatial'', 3), (''Musical'', 2), (''Linguistique'', 7), (''Naturalistic'', 1)]) 3) \<and>
   topIntelligences
     (Some [(''Spatial'', 3), (''Musical'', 2), (''Linguistique'', 7), (''Naturalistic'', 1)]) 3
     = [Str ''Linguistique'', Str ''Spatial'', Str ''Musical''] \<and>
   barChart [(''Spatial'', 3), (''Musical'', 2), (''Linguistique'', 7), (''Naturalistic'', 1)]
     = barChart [(''Spatial'', 3), (''Musical'', 2), (''Naturalistic'', 1)]"
proof -
  let ?sc = "[(''Spatial'', 3), (''Musical'', 2), (''Linguistique'', 7), (''Naturalistic'', 1 :: int)]"
  have mem: "(''Linguistique'', 7) \<in> set ?sc" by simp
  have few: "length (filter (\<lambda>x. 7 \<le> snd x) ?sc) \<le> 3" by simp
  have val: "topIntelligences (Some ?sc) 3 = [Str ''Linguistique'', Str ''Spatial'', Str ''Musical'']"
    by code_simp
  have fil: "filter (\<lambda>(k, v). k \<in> set INTELLIGENCE_KEYS) ?sc
      = [(''Spatial'', 3), (''Musical'', 2), (''Naturalistic'', 1)]"
    by (simp add: INTELLIGENCE_KEYS_def)
  from unlisted_scores_rendering [of ?sc] mem few
  have "labelOf ''Linguistique'' \<in> set (topIntelligences (Some ?sc) 3)"
    and "barChart (filter (\<lambda>(k, v). k \<in> set INTELLIGENCE_KEYS) ?sc) = barChart ?sc"
    by blast+
  with mem few val fil show ?thesis by simp
qed

subsection \<open>levelToGrade\<close>

text \<open>
  C7. \<open>levelToGrade\<close> maps \<open>level1\<close> to \<open>Grade 9\<close>, \<open>level2\<close> to \<open>Grade 10\<close>,
  \<open>level3\<close> to \<open>Grade 11\<close>, \<open>level4\<close> to \<open>Grade 12\<close>, every other non-empty
  value to itself, and an absent or empty value to \<open>Unknown\<close>. It is a total
  function: every argument has one of these results.
\<close>

theorem levelToGrade_lookup:
  "levelToGrade (Some ''level1'') = ''Grade 9'' \<and>
   levelToGrade (Some ''level2'') = ''Grade 10'' \<and>
   levelToGrade (Some ''level3'') = ''Grade 11'' \<and>
   levelToGrade (Some ''level4'') = ''Grade 12'' \<and>
   (\<forall>l. l \<noteq> [] \<longrightarrow> l \<notin> {''level1'', ''level2'', ''level3'', ''level4''} \<longrightarrow>
        levelToGrade (Some l) = l) \<and>
   levelToGrade None = ''Unknown'' \<and>
   levelToGrade (Some []) = ''Unknown''"
  by (simp add: levelToGrade_def)

theorem levelToGrade_lookup_witness:
  "''level7'' \<noteq> [] \<and> ''level7'' \<notin> {''level1'', ''level2'', ''level3'', ''level4''} \<and>
   levelToGrade (Some ''level7'') = ''level7''"
  using levelToGrade_lookup by simp

subsection \<open>load\<close>

text \<open>
  C8. When the fetch fails, the error is caught in \<open>load\<close> and logged, and \<open>load\<close>
  completes without an error: with the component mounted, the case in which the
  dashboard shows its count, \<open>results\<close> becomes empty and \<open>loading\<close> false. (After a
  teardown while the fetch was pending, the guard on \<open>mounted\<close> leaves \<open>results\<close> as
  it was and \<open>loading\<close> as \<open>load\<close> set it.)
\<close>

theorem load_failure:
  "load (Inl err) True st =
     Inr (st\<lparr>loading := False, results := [],
            consoleErrors := consoleErrors st @
              [''Failed to load results:'' @ (case err of FetchFailure msg \<Rightarrow> msg)]\<rparr>) \<and>
   load (Inl err) False st =
     Inr (st\<lparr>loading := True,
            consoleErrors := consoleErrors st @
              [''Failed to load results:'' @ (case err of FetchFailure msg \<Rightarrow> msg)]\<rparr>)"
  by (simp add: load_def tryCatchFinally_def)

end
